theory Spec2Isabelle
  imports Complex_Main "HOL-Library.Sublist"
begin

section \<open>Strings and the library calls the extractor relies on\<close>

text \<open>
  Python strings are modelled as \<open>string\<close> (lists of 8-bit characters), so
  \<open>str.lower\<close> is the ASCII lower-casing. \<open>s.startswith(p)\<close> is \<open>prefix p s\<close>,
  \<open>s.endswith(p)\<close> is \<open>suffix p s\<close> and \<open>p in s\<close> is \<open>contains p s\<close>.
\<close>

datatype error = ValueError | OSError

definition lower_char :: "char \<Rightarrow> char" where
  "lower_char c =
     (case map_of (zip ''ABCDEFGHIJKLMNOPQRSTUVWXYZ'' ''abcdefghijklmnopqrstuvwxyz'') c of
        None \<Rightarrow> c
      | Some l \<Rightarrow> l)"

definition lower :: "string \<Rightarrow> string" where
  "lower s = map lower_char s"

fun contains :: "string \<Rightarrow> string \<Rightarrow> bool" where
  "contains p [] = (p = [])"
| "contains p (c # cs) = (prefix p (c # cs) \<or> contains p cs)"

fun join_strs :: "string \<Rightarrow> string list \<Rightarrow> string" where
  \<comment> \<open>\<open>sep.join(parts)\<close>\<close>
  "join_strs sep [] = []"
| "join_strs sep [p] = p"
| "join_strs sep (p # q # ps) = p @ sep @ join_strs sep (q # ps)"

text \<open>
  \<open>os.path.join(a, b)\<close> on a POSIX system: an absolute second component replaces the
  first, an empty first component or one ending in a slash takes no extra separator.
\<close>

definition path_join :: "string \<Rightarrow> string \<Rightarrow> string" where
  "path_join a b =
     (if prefix ''/'' b then b
      else if a = [] \<or> suffix ''/'' a then a @ b
      else a @ ''/'' @ b)"

text \<open>
  \<open>s.split(sep)\<close> for a non-empty separator: the pieces between the non-overlapping
  occurrences of \<open>sep\<close>, scanned from the left. Python raises \<open>ValueError\<close> on an empty
  separator; the extractor only ever splits on a literal, so that case returns the
  string as its only piece here.
\<close>

function split_str :: "string \<Rightarrow> string \<Rightarrow> string list" where
  "split_str sep s =
     (if sep = [] \<or> s = [] then [s]
      else if prefix sep s then [] # split_str sep (drop (length sep) s)
      else (case split_str sep (tl s) of
              [] \<Rightarrow> [[hd s]]
            | p # ps \<Rightarrow> (hd s # p) # ps))"
  by pat_completeness auto
termination
  by (relation "measure (\<lambda>(sep, s). length s)") auto

declare split_str.simps [simp del]

subsection \<open>urllib.parse\<close>

text \<open>
  \<open>urlparse(url)\<close> as CPython's \<open>urllib.parse\<close> computes it: tab, carriage return
  and line feed are removed, a leading run of letters, digits, \<open>+\<close>, \<open>-\<close> and \<open>.\<close>
  that starts with a letter and ends at the first colon is the scheme, and when the rest
  starts with two slashes the network location runs up to the first \<open>/\<close>, \<open>?\<close> or \<open>#\<close>.
  A network location with an unmatched square bracket raises \<open>ValueError\<close>. The path
  is what follows, up to the first \<open>?\<close> or \<open>#\<close>, without the parameters that a
  semicolon in its last segment introduces (for the schemes that take parameters, among
  them \<open>http\<close>, \<open>https\<close> and the empty scheme). The scheme lists are those of
  CPython 3.11. The further checks newer interpreters run on a bracketed host and on a
  non-ASCII network location are outside this model.
\<close>

record url_parts =
  scheme :: string
  netloc :: string
  path :: string

definition is_alpha :: "char \<Rightarrow> bool" where
  "is_alpha c = (let n = (of_char c :: nat) in (65 \<le> n \<and> n \<le> 90) \<or> (97 \<le> n \<and> n \<le> 122))"

definition is_scheme_char :: "char \<Rightarrow> bool" where
  "is_scheme_char c =
     (let n = (of_char c :: nat) in
        is_alpha c \<or> (48 \<le> n \<and> n \<le> 57) \<or> c = CHR ''+'' \<or> c = CHR ''-'' \<or> c = CHR ''.'')"

definition unsafe_url_char :: "char \<Rightarrow> bool" where
  "unsafe_url_char c = (c = CHR 0x09 \<or> c = CHR 0x0D \<or> c = CHR 0x0A)"

definition c0_control_or_space :: "char \<Rightarrow> bool" where
  "c0_control_or_space c = ((of_char c :: nat) \<le> 32)"

definition split_scheme :: "string \<Rightarrow> string \<times> string" where
  "split_scheme url =
     (let pre = takeWhile (\<lambda>c. c \<noteq> CHR '':'') url in
        if CHR '':'' \<in> set url \<and> pre \<noteq> [] \<and> is_alpha (hd pre) \<and> list_all is_scheme_char pre
        then (lower pre, drop (Suc (length pre)) url)
        else ([], url))"

definition netloc_delim :: "char \<Rightarrow> bool" where
  "netloc_delim c = (c = CHR ''/'' \<or> c = CHR ''?'' \<or> c = CHR ''#'')"

definition uses_params :: "string list" where
  "uses_params = ['''', ''ftp'', ''hdl'', ''prospero'', ''http'', ''imap'', ''https'',
     ''shttp'', ''rtsp'', ''rtspu'', ''sip'', ''sips'', ''mms'', ''sftp'', ''tel'']"

definition splitparams :: "string \<Rightarrow> string" where
  \<comment> \<open>the first component of \<open>_splitparams(url)\<close>, called when \<open>url\<close> has a semicolon\<close>
  "splitparams p =
     (if CHR ''/'' \<in> set p then
        (let seg = takeWhile (\<lambda>c. c \<noteq> CHR ''/'') (rev p);
             dir = take (length p - length seg) p;
             seg' = rev seg
         in if CHR '';'' \<in> set seg' then dir @ takeWhile (\<lambda>c. c \<noteq> CHR '';'') seg' else p)
      else takeWhile (\<lambda>c. c \<noteq> CHR '';'') p)"

definition urlparse :: "string \<Rightarrow> error + url_parts" where
  "urlparse url0 =
     (let url = filter (\<lambda>c. \<not> unsafe_url_char c) (dropWhile c0_control_or_space url0);
          (sch, rest) = split_scheme url;
          (nl, rest') =
            (if take 2 rest = ''//''
             then (takeWhile (\<lambda>c. \<not> netloc_delim c) (drop 2 rest),
                   dropWhile (\<lambda>c. \<not> netloc_delim c) (drop 2 rest))
             else ([], rest));
          p = takeWhile (\<lambda>c. c \<noteq> CHR ''#'' \<and> c \<noteq> CHR ''?'') rest';
          p' = (if sch \<in> set uses_params \<and> CHR '';'' \<in> set p then splitparams p else p)
      in if (CHR ''['' \<in> set nl \<and> CHR '']'' \<notin> set nl) \<or> (CHR '']'' \<in> set nl \<and> CHR ''['' \<notin> set nl)
         then Inl ValueError
         else Inr \<lparr>scheme = sch, netloc = nl, path = p'\<rparr>)"

section \<open>Domain normaliser\<close>

text \<open>
  Both \<open>get_domain\<close> and \<open>find_logo_urls\<close> start with the same two lines:
  \<^verbatim>\<open>
  if not url.startswith(('http://', 'https://')):
      url = 'https://' + url
  \<close>
  \<open>normalize_url\<close> is that step (the spec calls it \<open>normalize\<close>).
\<close>

definition has_scheme_prefix :: "string \<Rightarrow> bool" where
  "has_scheme_prefix url = (prefix ''http://'' url \<or> prefix ''https://'' url)"

definition normalize_url :: "string \<Rightarrow> string" where
  "normalize_url url = (if \<not> has_scheme_prefix url then ''https://'' @ url else url)"

definition get_domain :: "string \<Rightarrow> error + string" where
  "get_domain url =
     (case urlparse (normalize_url url) of
        Inl e \<Rightarrow> Inl e
      | Inr parsed_url \<Rightarrow> Inr (netloc parsed_url))"

section \<open>The outside world\<close>

text \<open>
  Everything the extractor reaches through a library is a field of the environment:
  the responses of \<open>requests.get\<close> (\<open>None\<close> when the call raises: a transport error or
  the ten-second timeout), the size Pillow decodes from image bytes (\<open>None\<close> when
  \<open>Image.open\<close> raises), the elements BeautifulSoup's \<open>html.parser\<close> tree holds, in
  document order (\<open>None\<close> when the parser raises), the relative-reference resolution
  inside \<open>urljoin\<close>, whether a file can be opened for writing, whether \<open>os.makedirs\<close>
  succeeds, and the table \<open>pd.read_parquet\<close> loads (\<open>None\<close> when it raises). The
  environment does not change during a run: a URL requested twice answers the same.
\<close>

text \<open>
  A response with what the extractor reads of it: \<open>status_code\<close>, \<open>text\<close>,
  \<open>content\<close> and the \<open>content-type\<close> header, if there is one.
\<close>

record response =
  status_code :: int
  text_body :: string
  content :: string
  content_type :: "string option"

datatype attr_value = Str string | Lst "string list"

text \<open>
  An element of the parsed tree with the attributes the scanner reads. The
  \<open>html.parser\<close> builder yields a string for \<open>src\<close>, \<open>alt\<close>, \<open>id\<close> and
  \<open>href\<close> and a list of tokens for \<open>class\<close>; the scanner itself allows a string or a
  list for \<open>rel\<close>. \<open>markup\<close> is \<open>str(element)\<close>.
\<close>

record element =
  tag :: string
  src_attr :: "string option"
  alt_attr :: "string option"
  class_attr :: "string list option"
  id_attr :: "string option"
  rel_attr :: "attr_value option"
  href_attr :: "string option"
  markup :: string

type_synonym dataframe = "string \<rightharpoonup> string option list"

record env =
  http_get :: "string \<Rightarrow> response option"
  image_size :: "string \<Rightarrow> (int \<times> int) option"
  html_parser :: "string \<Rightarrow> element list option"
  resolve_relative :: "string \<Rightarrow> string \<Rightarrow> string"
  can_write :: "string \<Rightarrow> bool"
  makedirs_ok :: "string \<Rightarrow> bool"
  read_parquet :: "string \<Rightarrow> dataframe option"

text \<open>
  The world the extractor changes is the set of files, with a trace of what happened:
  every HTTP GET issued, every call of \<open>download_logo\<close> by the site processor, every
  file written.
\<close>

datatype event = Get string | Attempt string | Write string string

record world =
  files :: "string \<rightharpoonup> string"
  trace :: "event list"

definition emit :: "event \<Rightarrow> world \<Rightarrow> world" where
  "emit ev w = w\<lparr>trace := trace w @ [ev]\<rparr>"

fun attempts :: "event list \<Rightarrow> string list" where
  "attempts [] = []"
| "attempts (Attempt u # evs) = u # attempts evs"
| "attempts (ev # evs) = attempts evs"

fun gets :: "event list \<Rightarrow> string list" where
  "gets [] = []"
| "gets (Get u # evs) = u # gets evs"
| "gets (ev # evs) = gets evs"

fun writes :: "event list \<Rightarrow> string list" where
  "writes [] = []"
| "writes (Write p c # evs) = p # writes evs"
| "writes (ev # evs) = writes evs"

definition requests_get :: "env \<Rightarrow> string \<Rightarrow> world \<Rightarrow> response option \<times> world" where
  "requests_get E url w = (http_get E url, emit (Get url) w)"

definition write_file :: "env \<Rightarrow> string \<Rightarrow> string \<Rightarrow> world \<Rightarrow> world option" where
  \<comment> \<open>\<open>with open(file_path, mode) as f: f.write(data)\<close>; \<open>None\<close> when it raises\<close>
  "write_file E file_path data w =
     (if can_write E file_path
      then Some (emit (Write file_path data) (w\<lparr>files := (files w)(file_path \<mapsto> data)\<rparr>))
      else None)"

text \<open>
  \<open>urljoin(base, url)\<close>: an empty argument returns the other one before anything is
  parsed; then both are parsed (which may raise); a reference with a scheme of its own
  that differs from the base's, or a scheme that takes no relative references, is
  returned as it is. What remains is the resolution of a relative reference.
\<close>

definition uses_relative :: "string list" where
  "uses_relative = ['''', ''ftp'', ''http'', ''gopher'', ''nntp'', ''imap'', ''wais'', ''file'',
     ''https'', ''shttp'', ''mms'', ''prospero'', ''rtsp'', ''rtspu'', ''sftp'', ''svn'',
     ''svn+ssh'', ''ws'', ''wss'']"

definition urljoin :: "env \<Rightarrow> string \<Rightarrow> string \<Rightarrow> error + string" where
  "urljoin E base url =
     (if base = [] then Inr url
      else if url = [] then Inr base
      else (case urlparse base of
              Inl e \<Rightarrow> Inl e
            | Inr b \<Rightarrow>
               (case urlparse url of
                  Inl e \<Rightarrow> Inl e
                | Inr u \<Rightarrow>
                   (let sch = (if scheme u = [] then scheme b else scheme u) in
                      if sch \<noteq> scheme b \<or> sch \<notin> set uses_relative then Inr url
                      else Inr (resolve_relative E base url)))))"

section \<open>HTML candidate scanner\<close>

definition get_str :: "string option \<Rightarrow> string" where
  \<comment> \<open>\<open>element.get(name, '')\<close>\<close>
  "get_str a = (case a of None \<Rightarrow> [] | Some s \<Rightarrow> s)"

definition get_list :: "string list option \<Rightarrow> string list" where
  \<comment> \<open>\<open>element.get(name, [])\<close>\<close>
  "get_list a = (case a of None \<Rightarrow> [] | Some l \<Rightarrow> l)"

definition any_term_in :: "string list \<Rightarrow> string list \<Rightarrow> bool" where
  \<comment> \<open>\<open>any(term in attr for term in terms for attr in attrs)\<close>\<close>
  "any_term_in terms attrs = list_ex (\<lambda>t. list_ex (\<lambda>a. contains t a) attrs) terms"

definition find_all :: "string \<Rightarrow> element list \<Rightarrow> element list" where
  \<comment> \<open>\<open>soup.find_all(name)\<close>: the elements of that name, in document order\<close>
  "find_all t soup = filter (\<lambda>e. tag e = t) soup"

definition img_matches :: "element \<Rightarrow> bool" where
  \<comment> \<open>the test of method 1, on the four attribute strings of an image\<close>
  "img_matches img =
     (let img_src = get_str (src_attr img);
          img_alt = lower (get_str (alt_attr img));
          img_class = lower (join_strs '' '' (get_list (class_attr img)));
          img_id = lower (get_str (id_attr img))
      in any_term_in [''logo'', ''brand'', ''header-image'']
           [lower img_src, img_alt, img_class, img_id])"

fun img_loop :: "env \<Rightarrow> string \<Rightarrow> element list \<Rightarrow> string list \<Rightarrow> error + string list" where
  "img_loop E url [] logo_urls = Inr logo_urls"
| "img_loop E url (img # imgs) logo_urls =
     (if img_matches img then
        (case urljoin E url (get_str (src_attr img)) of
           Inl e \<Rightarrow> Inl e
         | Inr img_url \<Rightarrow> img_loop E url imgs (logo_urls @ [img_url]))
      else img_loop E url imgs logo_urls)"

definition link_rel :: "element \<Rightarrow> string" where
  \<comment> \<open>\<open>rel\<close> after the \<open>isinstance\<close> branch of method 2; the default is the empty list\<close>
  "link_rel link =
     (case rel_attr link of
        None \<Rightarrow> lower (join_strs '' '' [])
      | Some (Lst l) \<Rightarrow> lower (join_strs '' '' l)
      | Some (Str s) \<Rightarrow> lower s)"

definition link_matches :: "element \<Rightarrow> bool" where
  "link_matches link =
     list_ex (\<lambda>icon_term. contains icon_term (link_rel link))
       [''icon'', ''shortcut icon'', ''apple-touch-icon'']"

fun link_loop :: "env \<Rightarrow> string \<Rightarrow> element list \<Rightarrow> string list \<Rightarrow> error + string list" where
  "link_loop E url [] logo_urls = Inr logo_urls"
| "link_loop E url (link # links) logo_urls =
     (if link_matches link then
        (let href = get_str (href_attr link) in
           if href \<noteq> [] then
             (case urljoin E url href of
                Inl e \<Rightarrow> Inl e
              | Inr icon_url \<Rightarrow> link_loop E url links (logo_urls @ [icon_url]))
           else link_loop E url links logo_urls)
      else link_loop E url links logo_urls)"

definition svg_matches :: "element \<Rightarrow> bool" where
  \<comment> \<open>the test of method 3, on the class list and the id of an inline SVG\<close>
  "svg_matches svg =
     (let svg_class = lower (join_strs '' '' (get_list (class_attr svg)));
          svg_id = lower (get_str (id_attr svg))
      in any_term_in [''logo'', ''brand''] [svg_class, svg_id])"

definition data_prefix :: string where
  "data_prefix = ''data:image/svg+xml;base64,''"

fun svg_loop :: "element list \<Rightarrow> string list \<Rightarrow> string list" where
  "svg_loop [] logo_urls = logo_urls"
| "svg_loop (svg # svgs) logo_urls =
     (if svg_matches svg
      then svg_loop svgs (logo_urls @ [data_prefix @ markup svg])
      else svg_loop svgs logo_urls)"

text \<open>
  The part of \<open>find_logo_urls\<close> after the page is parsed: the three loops, in the order
  of the source. An exception in a loop leaves the \<open>try\<close> block.
\<close>

definition scan_soup :: "env \<Rightarrow> string \<Rightarrow> element list \<Rightarrow> error + string list" where
  "scan_soup E url soup =
     (case img_loop E url (find_all ''img'' soup) [] of
        Inl e \<Rightarrow> Inl e
      | Inr logo_urls1 \<Rightarrow>
         (case link_loop E url (find_all ''link'' soup) logo_urls1 of
            Inl e \<Rightarrow> Inl e
          | Inr logo_urls2 \<Rightarrow> Inr (svg_loop (find_all ''svg'' soup) logo_urls2)))"

definition find_logo_urls :: "env \<Rightarrow> string \<Rightarrow> world \<Rightarrow> string list \<times> world" where
  "find_logo_urls E url0 w =
     (let url = normalize_url url0;
          (r, w') = requests_get E url w
      in case r of
           None \<Rightarrow> ([], w')
         | Some response \<Rightarrow>
            if status_code response \<noteq> 200 then ([], w')
            else (case html_parser E (text_body response) of
                    None \<Rightarrow> ([], w')
                  | Some soup \<Rightarrow>
                     (case scan_soup E url soup of
                        Inl e \<Rightarrow> ([], w')
                      | Inr logo_urls \<Rightarrow> (logo_urls, w'))))"

section \<open>Image validator\<close>

text \<open>
  \<open>max(width, height) / min(width, height)\<close> is Python's true division. The quotient
  is taken exactly here; the double the interpreter computes compares with 4 the same
  way for every size below \<open>2 ^ 51\<close>. A zero divisor raises \<open>ZeroDivisionError\<close>,
  which the \<open>except\<close> clause turns into \<open>False\<close>, as it does a decoding failure.
\<close>

definition is_likely_logo :: "env \<Rightarrow> string \<Rightarrow> int \<Rightarrow> int \<Rightarrow> bool" where
  "is_likely_logo E image_content min_size max_size =
     (case image_size E image_content of
        None \<Rightarrow> False
      | Some (width, height) \<Rightarrow>
          if width < min_size \<or> height < min_size then False
          else if width > max_size \<or> height > max_size then False
          else if (width = 16 \<and> height = 16) \<or> (width = 32 \<and> height = 32) then True
          else if min width height = 0 then False
          else if real_of_int (max width height) / real_of_int (min width height) > 4 then False
          else True)"

section \<open>Logo fetcher\<close>

definition file_ext :: "response \<Rightarrow> string \<Rightarrow> error + string" where
  \<comment> \<open>the extension \<open>download_logo\<close> determines: from the content type, else from the URL's path\<close>
  "file_ext response url =
     (let ct = lower (get_str (content_type response)) in
        if contains ''png'' ct then Inr ''.png''
        else if contains ''jpg'' ct \<or> contains ''jpeg'' ct then Inr ''.jpg''
        else if contains ''svg'' ct then Inr ''.svg''
        else if contains ''ico'' ct then Inr ''.ico''
        else (case urlparse url of
                Inl e \<Rightarrow> Inl e
              | Inr parsed \<Rightarrow>
                 (let url_path = lower (path parsed) in
                    if suffix ''.png'' url_path then Inr ''.png''
                    else if suffix ''.jpg'' url_path \<or> suffix ''.jpeg'' url_path then Inr ''.jpg''
                    else if suffix ''.svg'' url_path then Inr ''.svg''
                    else if suffix ''.ico'' url_path then Inr ''.ico''
                    else Inr ''.png'')))"

text \<open>
  Every exception inside \<open>download_logo\<close> is caught and gives \<open>None\<close>: a failed GET, a
  failed write, a URL that does not parse, and the index error of \<open>split(...)[1]\<close>
  (which the prefix test rules out).
\<close>

definition download_logo :: "env \<Rightarrow> string \<Rightarrow> string \<Rightarrow> string \<Rightarrow> world \<Rightarrow> string option \<times> world" where
  "download_logo E url domain output_folder w =
     (if prefix data_prefix url then
        (case split_str ''base64,'' url of
           _ # svg_content # _ \<Rightarrow>
             (let file_path = path_join output_folder (domain @ '' - logo.svg'') in
                case write_file E file_path svg_content w of
                  None \<Rightarrow> (None, w)
                | Some w' \<Rightarrow> (Some file_path, w'))
         | _ \<Rightarrow> (None, w))
      else
        (let (r, w1) = requests_get E url w in
           case r of
             None \<Rightarrow> (None, w1)
           | Some response \<Rightarrow>
               if status_code response \<noteq> 200 then (None, w1)
               else if \<not> is_likely_logo E (content response) 16 500 then (None, w1)
               else (case file_ext response url of
                       Inl e \<Rightarrow> (None, w1)
                     | Inr ext \<Rightarrow>
                        (let file_path = path_join output_folder (domain @ '' - logo'' @ ext) in
                           case write_file E file_path (content response) w1 of
                             None \<Rightarrow> (None, w1)
                           | Some w' \<Rightarrow> (Some file_path, w')))))"

section \<open>Site processor\<close>

text \<open>
  The loop of \<open>process_website\<close> over the candidates. \<open>if file_path:\<close> is Python's
  truth test: \<open>None\<close> and the empty string both fail it. The result is the flag
  \<open>success\<close>.
\<close>

fun try_candidates :: "env \<Rightarrow> string list \<Rightarrow> string \<Rightarrow> string \<Rightarrow> world \<Rightarrow> bool \<times> world" where
  "try_candidates E [] domain output_folder w = (False, w)"
| "try_candidates E (url # urls) domain output_folder w =
     (case download_logo E url domain output_folder (emit (Attempt url) w) of
        (Some file_path, w') \<Rightarrow>
          if file_path \<noteq> [] then (True, w')
          else try_candidates E urls domain output_folder w'
      | (None, w') \<Rightarrow> try_candidates E urls domain output_folder w')"

definition process_website :: "env \<Rightarrow> string \<Rightarrow> string \<Rightarrow> world \<Rightarrow> error option \<times> world" where
  \<comment> \<open>the first component is the exception that leaves the function, if any\<close>
  "process_website E website output_folder w =
     (case get_domain website of
        Inl e \<Rightarrow> (Some e, w)
      | Inr domain \<Rightarrow>
          (let (logo_urls, w1) = find_logo_urls E website w in
             if logo_urls = [] then (None, w1)
             else (None, snd (try_candidates E logo_urls domain output_folder w1))))"

section \<open>Batch runner and entry point\<close>

text \<open>
  \<open>Series.dropna()\<close> drops the missing entries and \<open>unique()\<close> keeps the first
  occurrence of every value, in order of appearance.
\<close>

definition dropna :: "'a option list \<Rightarrow> 'a list" where
  "dropna col = [v. Some v \<leftarrow> col]"

fun unique :: "'a list \<Rightarrow> 'a list" where
  "unique [] = []"
| "unique (x # xs) = x # unique (filter (\<lambda>y. y \<noteq> x) xs)"

text \<open>
  \<open>extract_logos_from_parquet\<close> up to the point where the sites are handed to the
  thread pool: the result is the list of sites for which \<open>process_website\<close> is submitted,
  one task each. \<open>os.makedirs\<close> stands outside every \<open>try\<close>, so its exception leaves
  the function; a table that cannot be read and a missing column are reported and
  nothing is submitted. The tasks themselves run concurrently, and whatever they raise
  is caught where their results are collected.
\<close>

definition extract_logos_from_parquet :: "env \<Rightarrow> string \<Rightarrow> string \<Rightarrow> string \<Rightarrow> error + string list" where
  "extract_logos_from_parquet E parquet_file output_folder column_name =
     (if \<not> makedirs_ok E output_folder then Inl OSError
      else (case read_parquet E parquet_file of
              None \<Rightarrow> Inr []
            | Some df \<Rightarrow>
               (case df column_name of
                  None \<Rightarrow> Inr []
                | Some col \<Rightarrow> Inr (unique (dropna col)))))"

record invocation =
  parquet_file :: string
  column_name :: string
  output_folder :: string



section \<open>The scanner's output as the three heuristics describe it\<close>

text \<open>
  The matches of each heuristic, in document order, as the design describes them: the
  resolved source of every matching image, the resolved \<open>href\<close> of every matching link
  that has one, the tagged markup of every matching inline SVG. A resolution is a
  value of \<open>error + string\<close>, since \<open>urljoin\<close> may raise.
\<close>

definition heuristic1_matches :: "env \<Rightarrow> string \<Rightarrow> element list \<Rightarrow> (error + string) list" where
  "heuristic1_matches E url soup =
     map (\<lambda>img. urljoin E url (get_str (src_attr img))) (filter img_matches (find_all ''img'' soup))"

definition heuristic2_matches :: "env \<Rightarrow> string \<Rightarrow> element list \<Rightarrow> (error + string) list" where
  "heuristic2_matches E url soup =
     map (\<lambda>link. urljoin E url (get_str (href_attr link)))
       (filter (\<lambda>link. link_matches link \<and> get_str (href_attr link) \<noteq> []) (find_all ''link'' soup))"

definition heuristic3_matches :: "element list \<Rightarrow> string list" where
  "heuristic3_matches soup =
     map (\<lambda>svg. data_prefix @ markup svg) (filter svg_matches (find_all ''svg'' soup))"

definition resolved :: "(error + string) list \<Rightarrow> bool" where
  "resolved rs = list_all (\<lambda>r. \<not> isl r) rs"

section \<open>A worked scenario\<close>

text \<open>
  A small world to run the extractor in. The site \<open>a.com\<close> serves a page with an inline
  SVG logo, a favicon link and a logo image, in that order; the image answers 404 and
  the favicon is a 32 by 32 icon. The site \<open>b.com\<close> serves a page whose logo image has
  a source that does not parse, followed by a favicon link. The site \<open>c.com\<close> serves a
  page with one inline SVG that embeds a base64 image. The output folder with the empty
  name cannot be created, as \<open>os.makedirs('')\<close> raises.
\<close>

definition blank :: "string \<Rightarrow> element" where
  "blank t = \<lparr>tag = t, src_attr = None, alt_attr = None, class_attr = None, id_attr = None,
     rel_attr = None, href_attr = None, markup = []\<rparr>"

definition svg_a_markup :: string where
  "svg_a_markup = ''<svg class='' @ [CHR 0x22] @ ''logo'' @ [CHR 0x22] @ ''><circle r='' @ [CHR 0x22]
     @ ''4'' @ [CHR 0x22] @ ''></circle></svg>''"

definition svg_c_markup :: string where
  "svg_c_markup = ''<svg id='' @ [CHR 0x22] @ ''brand'' @ [CHR 0x22] @ ''><image href='' @ [CHR 0x22]
     @ ''data:image/png;base64,iVBORw0KGgo='' @ [CHR 0x22] @ ''></image></svg>''"

definition soup_a :: "element list" where
  "soup_a =
     [(blank ''svg'')\<lparr>class_attr := Some [''logo''], markup := svg_a_markup\<rparr>,
      (blank ''link'')\<lparr>rel_attr := Some (Lst [''icon'']), href_attr := Some ''/favicon.ico''\<rparr>,
      (blank ''img'')\<lparr>src_attr := Some ''logo.png'', alt_attr := Some ''Company Logo''\<rparr>]"

definition soup_b :: "element list" where
  "soup_b =
     [(blank ''img'')\<lparr>src_attr := Some ''http://['', alt_attr := Some ''logo''\<rparr>,
      (blank ''link'')\<lparr>rel_attr := Some (Lst [''icon'']), href_attr := Some ''/favicon.ico''\<rparr>]"

definition soup_c :: "element list" where
  "soup_c = [(blank ''svg'')\<lparr>id_attr := Some ''brand'', markup := svg_c_markup\<rparr>]"

definition ok_response :: "string \<Rightarrow> string option \<Rightarrow> response" where
  "ok_response body ct = \<lparr>status_code = 200, text_body = body, content = body, content_type = ct\<rparr>"

definition demo_http :: "string \<Rightarrow> response option" where
  "demo_http url =
     (if url = ''https://a.com'' then Some (ok_response ''page a'' (Some ''text/html''))
      else if url = ''https://b.com'' then Some (ok_response ''page b'' (Some ''text/html''))
      else if url = ''https://c.com'' then Some (ok_response ''page c'' (Some ''text/html''))
      else if url = ''https://a.com/logo.png''
        then Some \<lparr>status_code = 404, text_body = [], content = [], content_type = None\<rparr>
      else if url = ''https://a.com/favicon.ico'' then Some (ok_response ''icon 32x32'' (Some ''image/x-icon''))
      else if url = ''https://a.com/banner.png'' then Some (ok_response ''image 600x600'' (Some ''image/png''))
      else None)"

definition demo_image_size :: "string \<Rightarrow> (int \<times> int) option" where
  "demo_image_size bytes =
     (if bytes = ''image 10x10'' then Some (10, 10)
      else if bytes = ''icon 16x16'' then Some (16, 16)
      else if bytes = ''icon 32x32'' then Some (32, 32)
      else if bytes = ''image 600x600'' then Some (600, 600)
      else if bytes = ''image 100x500'' then Some (100, 500)
      else if bytes = ''image 100x300'' then Some (100, 300)
      else None)"

definition demo_parser :: "string \<Rightarrow> element list option" where
  "demo_parser body =
     (if body = ''page a'' then Some soup_a
      else if body = ''page b'' then Some soup_b
      else if body = ''page c'' then Some soup_c
      else None)"

definition demo_table :: dataframe where
  "demo_table = [''domain'' \<mapsto> [Some ''a.com'', Some ''a.com'', Some ''b.com'', None]]"

definition demo_env :: env where
  "demo_env =
     \<lparr>http_get = demo_http,
      image_size = demo_image_size,
      html_parser = demo_parser,
      resolve_relative = (\<lambda>base url. if prefix ''/'' url then base @ url else base @ ''/'' @ url),
      can_write = (\<lambda>file_path. True),
      makedirs_ok = (\<lambda>folder. folder \<noteq> []),
      read_parquet = (\<lambda>file. if file = ''sites.parquet'' then Some demo_table else None)\<rparr>"


definition empty_world :: world where
  "empty_world = \<lparr>files = Map.empty, trace = []\<rparr>"

section \<open>Domain normaliser: properties\<close>

lemmas urlparse_eval_defs =
  urlparse_def split_scheme_def is_alpha_def is_scheme_char_def lower_def lower_char_def
  unsafe_url_char_def c0_control_or_space_def netloc_delim_def uses_params_def splitparams_def

text \<open>
  Claim C4. A site that starts with neither \<open>http://\<close> nor \<open>https://\<close> gets
  \<open>https://\<close> prepended, once (normalising again changes nothing); a site that starts
  with one of them is returned unchanged; \<open>get_domain\<close> is the network location of the
  normalised URL, which is \<open>example.com\<close> both for \<open>https://example.com/path\<close> and for
  \<open>example.com\<close>.
\<close>

theorem normalize_and_domain:
  "(\<not> prefix ''http://'' site \<and> \<not> prefix ''https://'' site \<longrightarrow>
      normalize_url site = ''https://'' @ site \<and> normalize_url (normalize_url site) = ''https://'' @ site)
   \<and> (prefix ''http://'' site \<or> prefix ''https://'' site \<longrightarrow> normalize_url site = site)
   \<and> get_domain site = map_sum id netloc (urlparse (normalize_url site))
   \<and> get_domain ''https://example.com/path'' = Inr ''example.com''
   \<and> get_domain ''example.com'' = Inr ''example.com''"
proof -
  have a: "get_domain ''https://example.com/path'' = Inr ''example.com''"
    by (simp add: get_domain_def normalize_url_def has_scheme_prefix_def urlparse_eval_defs Let_def)
  have b: "get_domain ''example.com'' = Inr ''example.com''"
    by (simp add: get_domain_def normalize_url_def has_scheme_prefix_def urlparse_eval_defs Let_def)
  have c: "get_domain site = map_sum id netloc (urlparse (normalize_url site))"
    by (simp add: get_domain_def split: sum.splits)
  show ?thesis using a b c
    by (simp add: normalize_url_def has_scheme_prefix_def)
qed

theorem normalize_and_domain_witness:
  "normalize_url ''example.com'' = ''https://example.com''
   \<and> normalize_url ''http://example.com'' = ''http://example.com''
   \<and> normalize_url ''https://example.com/path'' = ''https://example.com/path''"
  using normalize_and_domain [of "''example.com''"] normalize_and_domain [of "''http://example.com''"]
    normalize_and_domain [of "''https://example.com/path''"]
  by simp

section \<open>Image validator: properties\<close>

text \<open>
  Claim C1. With the default bounds 16 and 500 the validator rejects a 10 by 10 image,
  accepts 16 by 16 and 32 by 32, rejects 600 by 600 and 100 by 500, accepts 100 by 300;
  bytes that do not decode are rejected. For every decoded size the answer is: neither
  dimension below the lower bound, neither above the upper bound, and then either one of
  the two favicon sizes or an aspect ratio of at most 4. The bounds come before the
  favicon exception: a 16 by 16 image is rejected under a lower bound above 16, and a
  32 by 32 image under an upper bound below 32.
\<close>

theorem is_likely_logo_cases:
  "(image_size E b = None \<longrightarrow> \<not> is_likely_logo E b min_size max_size)
   \<and> (image_size E b = Some (10, 10) \<longrightarrow> \<not> is_likely_logo E b 16 500)
   \<and> (image_size E b = Some (16, 16) \<longrightarrow> is_likely_logo E b 16 500)
   \<and> (image_size E b = Some (32, 32) \<longrightarrow> is_likely_logo E b 16 500)
   \<and> (image_size E b = Some (600, 600) \<longrightarrow> \<not> is_likely_logo E b 16 500)
   \<and> (image_size E b = Some (100, 500) \<longrightarrow> \<not> is_likely_logo E b 16 500)
   \<and> (image_size E b = Some (100, 300) \<longrightarrow> is_likely_logo E b 16 500)
   \<and> (image_size E b = Some (width, height) \<longrightarrow>
        is_likely_logo E b min_size max_size =
          (\<not> (width < min_size \<or> height < min_size) \<and> \<not> (width > max_size \<or> height > max_size)
           \<and> ((width = 16 \<and> height = 16) \<or> (width = 32 \<and> height = 32)
                \<or> (min width height \<noteq> 0
                    \<and> real_of_int (max width height) / real_of_int (min width height) \<le> 4))))
   \<and> (image_size E b = Some (16, 16) \<and> 16 < min_size \<longrightarrow> \<not> is_likely_logo E b min_size max_size)
   \<and> (image_size E b = Some (32, 32) \<and> max_size < 32 \<longrightarrow> \<not> is_likely_logo E b min_size max_size)"
proof -
  have undecoded: "\<not> is_likely_logo E b min_size max_size" if "image_size E b = None"
    using that by (simp add: is_likely_logo_def)
  have decoded: "is_likely_logo E b lo hi =
          (\<not> (w < lo \<or> h < lo) \<and> \<not> (w > hi \<or> h > hi)
           \<and> ((w = 16 \<and> h = 16) \<or> (w = 32 \<and> h = 32)
                \<or> (min w h \<noteq> 0 \<and> real_of_int (max w h) / real_of_int (min w h) \<le> 4)))"
    if "image_size E b = Some (w, h)" for w h lo hi
    using that by (auto simp add: is_likely_logo_def)
  show ?thesis
    using undecoded decoded [of 10 10 16 500] decoded [of 16 16 16 500] decoded [of 32 32 16 500]
      decoded [of 600 600 16 500] decoded [of 100 500 16 500] decoded [of 100 300 16 500]
      decoded [of width height min_size max_size] decoded [of 16 16 min_size max_size]
      decoded [of 32 32 min_size max_size]
    by auto
qed

theorem is_likely_logo_cases_witness:
  "\<not> is_likely_logo demo_env ''not an image'' 16 500
   \<and> \<not> is_likely_logo demo_env ''image 10x10'' 16 500
   \<and> is_likely_logo demo_env ''icon 16x16'' 16 500
   \<and> is_likely_logo demo_env ''icon 32x32'' 16 500
   \<and> \<not> is_likely_logo demo_env ''image 600x600'' 16 500
   \<and> \<not> is_likely_logo demo_env ''image 100x500'' 16 500
   \<and> is_likely_logo demo_env ''image 100x300'' 16 500
   \<and> \<not> is_likely_logo demo_env ''icon 16x16'' 20 500
   \<and> \<not> is_likely_logo demo_env ''icon 32x32'' 16 20"
  using is_likely_logo_cases [of demo_env "''not an image''" 16 500]
    is_likely_logo_cases [of demo_env "''image 10x10''"]
    is_likely_logo_cases [of demo_env "''icon 16x16''" 20 500]
    is_likely_logo_cases [of demo_env "''icon 32x32''" 16 20]
    is_likely_logo_cases [of demo_env "''image 600x600''"]
    is_likely_logo_cases [of demo_env "''image 100x500''"]
    is_likely_logo_cases [of demo_env "''image 100x300''"]
  by (simp add: demo_env_def demo_image_size_def)

lemmas scenario_defs =
  demo_env_def demo_http_def demo_parser_def demo_image_size_def ok_response_def
  soup_a_def soup_b_def soup_c_def blank_def empty_world_def

section \<open>Scanner: properties\<close>

text \<open>
  Each loop appends, to what it was given, the matches of its heuristic in document
  order, as long as every resolution succeeds; the first resolution that raises ends it.
\<close>

lemma img_loop_Inr:
  "img_loop E url imgs acc = Inr us \<Longrightarrow>
   map Inr us = map Inr acc @ map (\<lambda>img. urljoin E url (get_str (src_attr img))) (filter img_matches imgs)"
proof (induction imgs arbitrary: acc)
  case Nil
  then show ?case by simp
next
  case (Cons img imgs)
  show ?case
  proof (cases "img_matches img")
    case False
    with Cons show ?thesis by simp
  next
    case True
    with Cons.prems obtain u where u: "urljoin E url (get_str (src_attr img)) = Inr u"
      and rest: "img_loop E url imgs (acc @ [u]) = Inr us"
      by (auto split: sum.splits)
    from Cons.IH [OF rest] u True show ?thesis by simp
  qed
qed

lemma img_loop_total:
  "list_all (\<lambda>r. \<not> isl r) (map (\<lambda>img. urljoin E url (get_str (src_attr img))) (filter img_matches imgs))
   \<Longrightarrow> \<exists>us. img_loop E url imgs acc = Inr us"
proof (induction imgs arbitrary: acc)
  case Nil
  show ?case by simp
next
  case (Cons img imgs)
  then show ?case by (cases "urljoin E url (get_str (src_attr img))") auto
qed

lemma img_loop_raises:
  "\<not> list_all (\<lambda>r. \<not> isl r) (map (\<lambda>img. urljoin E url (get_str (src_attr img))) (filter img_matches imgs))
   \<Longrightarrow> \<exists>e. img_loop E url imgs acc = Inl e"
proof (induction imgs arbitrary: acc)
  case Nil
  then show ?case by simp
next
  case (Cons img imgs)
  then show ?case by (cases "urljoin E url (get_str (src_attr img))") auto
qed

lemma link_loop_Inr:
  "link_loop E url links acc = Inr us \<Longrightarrow>
   map Inr us = map Inr acc @ map (\<lambda>link. urljoin E url (get_str (href_attr link)))
     (filter (\<lambda>link. link_matches link \<and> get_str (href_attr link) \<noteq> []) links)"
proof (induction links arbitrary: acc)
  case Nil
  then show ?case by simp
next
  case (Cons link links)
  show ?case
  proof (cases "link_matches link \<and> get_str (href_attr link) \<noteq> []")
    case False
    with Cons show ?thesis by (auto simp add: Let_def split: if_splits)
  next
    case True
    with Cons.prems obtain u where u: "urljoin E url (get_str (href_attr link)) = Inr u"
      and rest: "link_loop E url links (acc @ [u]) = Inr us"
      by (auto simp add: Let_def split: sum.splits)
    from Cons.IH [OF rest] u True show ?thesis by simp
  qed
qed

lemma link_loop_total:
  "list_all (\<lambda>r. \<not> isl r) (map (\<lambda>link. urljoin E url (get_str (href_attr link)))
     (filter (\<lambda>link. link_matches link \<and> get_str (href_attr link) \<noteq> []) links))
   \<Longrightarrow> \<exists>us. link_loop E url links acc = Inr us"
proof (induction links arbitrary: acc)
  case Nil
  show ?case by simp
next
  case (Cons link links)
  then show ?case by (cases "urljoin E url (get_str (href_attr link))") (auto simp add: Let_def)
qed

lemma link_loop_raises:
  "\<not> list_all (\<lambda>r. \<not> isl r) (map (\<lambda>link. urljoin E url (get_str (href_attr link)))
     (filter (\<lambda>link. link_matches link \<and> get_str (href_attr link) \<noteq> []) links))
   \<Longrightarrow> \<exists>e. link_loop E url links acc = Inl e"
proof (induction links arbitrary: acc)
  case Nil
  then show ?case by simp
next
  case (Cons link links)
  then show ?case by (cases "urljoin E url (get_str (href_attr link))") (auto simp add: Let_def)
qed

lemma svg_loop_eq:
  "svg_loop svgs acc = acc @ map (\<lambda>svg. data_prefix @ markup svg) (filter svg_matches svgs)"
  by (induction svgs arbitrary: acc) auto

lemma scan_soup_resolved:
  assumes "resolved (heuristic1_matches E url soup @ heuristic2_matches E url soup)"
  shows "\<exists>urls. scan_soup E url soup = Inr urls
           \<and> map Inr urls = heuristic1_matches E url soup @ heuristic2_matches E url soup
                 @ map Inr (heuristic3_matches soup)"
proof -
  from assms have r1: "list_all (\<lambda>r. \<not> isl r) (heuristic1_matches E url soup)"
    and r2: "list_all (\<lambda>r. \<not> isl r) (heuristic2_matches E url soup)"
    by (simp_all add: resolved_def)
  from r1 obtain us1 where l1: "img_loop E url (find_all ''img'' soup) [] = Inr us1"
    unfolding heuristic1_matches_def using img_loop_total by blast
  from r2 obtain us2 where l2: "link_loop E url (find_all ''link'' soup) us1 = Inr us2"
    unfolding heuristic2_matches_def using link_loop_total by blast
  have m1: "map Inr us1 = heuristic1_matches E url soup"
    using img_loop_Inr [OF l1] by (simp add: heuristic1_matches_def)
  have m2: "map Inr us2 = map Inr us1 @ heuristic2_matches E url soup"
    using link_loop_Inr [OF l2] by (simp add: heuristic2_matches_def)
  have "scan_soup E url soup = Inr (us2 @ heuristic3_matches soup)"
    by (simp add: scan_soup_def l1 l2 svg_loop_eq heuristic3_matches_def)
  then show ?thesis using m1 m2 by simp
qed

lemma scan_soup_unresolved:
  assumes "\<not> resolved (heuristic1_matches E url soup @ heuristic2_matches E url soup)"
  shows "\<exists>e. scan_soup E url soup = Inl e"
proof (cases "list_all (\<lambda>r. \<not> isl r) (heuristic1_matches E url soup)")
  case False
  then obtain e where "img_loop E url (find_all ''img'' soup) [] = Inl e"
    unfolding heuristic1_matches_def using img_loop_raises by blast
  then show ?thesis by (simp add: scan_soup_def)
next
  case True
  with assms have "\<not> list_all (\<lambda>r. \<not> isl r) (heuristic2_matches E url soup)"
    by (simp add: resolved_def)
  then have l2: "\<exists>e. link_loop E url (find_all ''link'' soup) acc = Inl e" for acc
    unfolding heuristic2_matches_def using link_loop_raises by blast
  show ?thesis
  proof (cases "img_loop E url (find_all ''img'' soup) []")
    case (Inl e)
    then show ?thesis by (simp add: scan_soup_def)
  next
    case (Inr us1)
    from l2 [of us1] obtain e where "link_loop E url (find_all ''link'' soup) us1 = Inl e"
      by blast
    with Inr show ?thesis by (simp add: scan_soup_def)
  qed
qed

text \<open>
  Claim C3, as amended. For a page that is fetched with status 200 and parsed: when the
  source of every matching image and the \<open>href\<close> of every matching link resolve, the
  scanner returns all Heuristic-1 matches in document order, then all Heuristic-2
  matches in document order, then all Heuristic-3 matches in document order, whatever
  the order of the elements among each other, and nothing is removed or merged. When
  one resolution raises, the scanner returns the empty sequence.
\<close>

theorem scanner_order:
  assumes "http_get E (normalize_url site) = Some r" and "status_code r = 200"
    and "html_parser E (text_body r) = Some soup"
  shows "(resolved (heuristic1_matches E (normalize_url site) soup @ heuristic2_matches E (normalize_url site) soup)
            \<longrightarrow> map Inr (fst (find_logo_urls E site w))
                  = heuristic1_matches E (normalize_url site) soup
                    @ heuristic2_matches E (normalize_url site) soup
                    @ map Inr (heuristic3_matches soup))
         \<and> (\<not> resolved (heuristic1_matches E (normalize_url site) soup @ heuristic2_matches E (normalize_url site) soup)
            \<longrightarrow> fst (find_logo_urls E site w) = [])"
proof (intro conjI impI)
  assume "resolved (heuristic1_matches E (normalize_url site) soup @ heuristic2_matches E (normalize_url site) soup)"
  from scan_soup_resolved [OF this] obtain urls where
    s: "scan_soup E (normalize_url site) soup = Inr urls"
    and m: "map Inr urls = heuristic1_matches E (normalize_url site) soup
              @ heuristic2_matches E (normalize_url site) soup @ map Inr (heuristic3_matches soup)"
    by blast
  have "fst (find_logo_urls E site w) = urls"
    using assms s by (simp add: find_logo_urls_def requests_get_def Let_def)
  with m show "map Inr (fst (find_logo_urls E site w))
                  = heuristic1_matches E (normalize_url site) soup
                    @ heuristic2_matches E (normalize_url site) soup
                    @ map Inr (heuristic3_matches soup)"
    by simp
next
  assume "\<not> resolved (heuristic1_matches E (normalize_url site) soup @ heuristic2_matches E (normalize_url site) soup)"
  from scan_soup_unresolved [OF this] obtain e where "scan_soup E (normalize_url site) soup = Inl e"
    by blast
  then show "fst (find_logo_urls E site w) = []"
    using assms by (simp add: find_logo_urls_def requests_get_def Let_def)
qed

lemmas scanner_defs =
  heuristic1_matches_def heuristic2_matches_def heuristic3_matches_def resolved_def find_all_def
  img_matches_def link_matches_def link_rel_def svg_matches_def any_term_in_def get_str_def
  get_list_def urljoin_def uses_relative_def normalize_url_def has_scheme_prefix_def

lemma page_a:
  "http_get demo_env (normalize_url ''a.com'') = Some (ok_response ''page a'' (Some ''text/html''))"
  "status_code (ok_response ''page a'' (Some ''text/html'')) = 200"
  "html_parser demo_env (text_body (ok_response ''page a'' (Some ''text/html''))) = Some soup_a"
  by (simp_all add: demo_env_def demo_http_def demo_parser_def ok_response_def normalize_url_def
      has_scheme_prefix_def)

lemma h1_a: "heuristic1_matches demo_env ''https://a.com'' soup_a = [Inr ''https://a.com/logo.png'']"
  by (simp add: scanner_defs scenario_defs urlparse_eval_defs Let_def)

lemma h2_a: "heuristic2_matches demo_env ''https://a.com'' soup_a = [Inr ''https://a.com/favicon.ico'']"
  by (simp add: scanner_defs scenario_defs urlparse_eval_defs Let_def)

lemma h3_a: "heuristic3_matches soup_a = [data_prefix @ svg_a_markup]"
  by (simp add: scanner_defs scenario_defs lower_def lower_char_def)

lemma norm_a: "normalize_url ''a.com'' = ''https://a.com''"
  by (simp add: normalize_url_def has_scheme_prefix_def)

theorem scanner_order_witness:
  "map tag soup_a = [''svg'', ''link'', ''img'']
   \<and> fst (find_logo_urls demo_env ''a.com'' empty_world)
       = [''https://a.com/logo.png'', ''https://a.com/favicon.ico'', data_prefix @ svg_a_markup]"
proof -
  have "map (Inr :: string \<Rightarrow> error + string) (fst (find_logo_urls demo_env ''a.com'' empty_world))
        = map Inr [''https://a.com/logo.png'', ''https://a.com/favicon.ico'', data_prefix @ svg_a_markup]"
    using scanner_order [OF page_a, of empty_world]
    by (simp add: norm_a h1_a h2_a h3_a resolved_def)
  then have "fst (find_logo_urls demo_env ''a.com'' empty_world)
        = [''https://a.com/logo.png'', ''https://a.com/favicon.ico'', data_prefix @ svg_a_markup]"
    by (simp only: inj_map_eq_map [OF inj_Inr])
  then show ?thesis by (simp add: soup_a_def blank_def)
qed

text \<open>
  The claim as stated fails on the page of \<open>b.com\<close>: its favicon link is a
  Heuristic-2 match that resolves, and the scanner returns nothing, because the source
  of the image before it does not parse.
\<close>

theorem scanner_order_counterexample:
  "http_get demo_env (normalize_url ''b.com'') = Some (ok_response ''page b'' (Some ''text/html''))
   \<and> html_parser demo_env ''page b'' = Some soup_b
   \<and> heuristic2_matches demo_env (normalize_url ''b.com'') soup_b = [Inr ''https://b.com/favicon.ico'']
   \<and> fst (find_logo_urls demo_env ''b.com'' empty_world) = []"
  by (simp add: find_logo_urls_def requests_get_def scan_soup_def scanner_defs scenario_defs
      urlparse_eval_defs emit_def Let_def)

lemma link_loop_skip:
  "href_attr link = None \<or> href_attr link = Some [] \<Longrightarrow>
   link_loop E url (xs @ link # ys) acc = link_loop E url (xs @ ys) acc"
proof (induction xs arbitrary: acc)
  case Nil
  then show ?case by (auto simp add: get_str_def Let_def)
next
  case (Cons x xs)
  then show ?case by (simp add: Let_def split: sum.splits)
qed

lemma scan_soup_img_no_src:
  assumes "scan_soup E url soup = Inr urls" and "img \<in> set soup" and "tag img = ''img''"
    and "img_matches img" and "get_str (src_attr img) = []"
  shows "url \<in> set urls"
proof -
  from assms(1) obtain us1 us2 where l1: "img_loop E url (find_all ''img'' soup) [] = Inr us1"
    and l2: "link_loop E url (find_all ''link'' soup) us1 = Inr us2"
    and u: "urls = svg_loop (find_all ''svg'' soup) us2"
    by (auto simp add: scan_soup_def split: sum.splits)
  have "img \<in> set (filter img_matches (find_all ''img'' soup))"
    using assms(2,3,4) by (simp add: find_all_def)
  then have "urljoin E url (get_str (src_attr img)) \<in> set (map Inr us1)"
    using img_loop_Inr [OF l1] by auto
  moreover have "urljoin E url [] = Inr url"
    by (simp add: urljoin_def)
  ultimately have "url \<in> set us1"
    using assms(5) by auto
  then have "url \<in> set us2"
    using link_loop_Inr [OF l2]
    by (metis (no_types, lifting) Un_iff image_eqI inj_Inr inj_image_mem_iff set_append set_map)
  then show ?thesis by (simp add: u svg_loop_eq)
qed

lemma scan_soup_link_no_href:
  assumes "tag link = ''link''" and "href_attr link = None \<or> href_attr link = Some []"
  shows "scan_soup E url (pre @ link # post) = scan_soup E url (pre @ post)"
proof -
  have i: "find_all ''img'' (pre @ link # post) = find_all ''img'' (pre @ post)"
    using assms(1) by (simp add: find_all_def)
  have s: "find_all ''svg'' (pre @ link # post) = find_all ''svg'' (pre @ post)"
    using assms(1) by (simp add: find_all_def)
  have l: "link_loop E url (find_all ''link'' (pre @ link # post)) acc
      = link_loop E url (find_all ''link'' (pre @ post)) acc" for acc
    using link_loop_skip [OF assms(2)] assms(1) by (simp add: find_all_def)
  show ?thesis by (simp add: scan_soup_def i s l cong: sum.case_cong)
qed

text \<open>
  Claim C10. An image without a \<open>src\<close> attribute, or with an empty one, whose alt
  text, class list or id contains one of the terms, contributes a candidate: the page
  URL itself, which is what the empty source resolves to; so the page URL is among the
  candidates of every scan of a page that holds such an image. A link without an
  \<open>href\<close>, or with an empty one, contributes nothing: the scan of a page is the scan
  of the page without that link.
\<close>

theorem missing_src_and_href:
  "((src_attr img = None \<or> src_attr img = Some [])
      \<and> any_term_in [''logo'', ''brand'', ''header-image'']
            [lower (get_str (alt_attr img)), lower (join_strs '' '' (get_list (class_attr img))),
             lower (get_str (id_attr img))]
      \<longrightarrow> img_loop E url (img # imgs) logo_urls = img_loop E url imgs (logo_urls @ [url])
          \<and> (tag img = ''img'' \<and> img \<in> set soup \<and> scan_soup E url soup = Inr urls \<longrightarrow> url \<in> set urls))
   \<and> ((href_attr link = None \<or> href_attr link = Some [])
      \<longrightarrow> link_loop E url (link # links) logo_urls = link_loop E url links logo_urls
          \<and> (tag link = ''link'' \<longrightarrow> scan_soup E url (pre @ link # post) = scan_soup E url (pre @ post)))"
proof (intro conjI impI)
  assume a: "(src_attr img = None \<or> src_attr img = Some [])
      \<and> any_term_in [''logo'', ''brand'', ''header-image'']
            [lower (get_str (alt_attr img)), lower (join_strs '' '' (get_list (class_attr img))),
             lower (get_str (id_attr img))]"
  then have m: "img_matches img" and s: "get_str (src_attr img) = []"
    by (auto simp add: img_matches_def any_term_in_def get_str_def Let_def)
  show "img_loop E url (img # imgs) logo_urls = img_loop E url imgs (logo_urls @ [url])"
    using m s by (simp add: urljoin_def)
  assume "tag img = ''img'' \<and> img \<in> set soup \<and> scan_soup E url soup = Inr urls"
  then show "url \<in> set urls"
    using scan_soup_img_no_src [of E url soup urls img] m s by simp
next
  assume h: "href_attr link = None \<or> href_attr link = Some []"
  then show "link_loop E url (link # links) logo_urls = link_loop E url links logo_urls"
    by (auto simp add: get_str_def Let_def)
  assume "tag link = ''link''"
  then show "scan_soup E url (pre @ link # post) = scan_soup E url (pre @ post)"
    using h by (rule scan_soup_link_no_href)
qed

theorem missing_src_and_href_witness:
  "scan_soup demo_env ''https://a.com''
     [(blank ''link'')\<lparr>rel_attr := Some (Lst [''icon''])\<rparr>, (blank ''img'')\<lparr>alt_attr := Some ''Site Logo''\<rparr>]
     = Inr [''https://a.com'']
   \<and> scan_soup demo_env ''https://a.com''
     [(blank ''link'')\<lparr>rel_attr := Some (Lst [''icon'']), href_attr := Some []\<rparr>,
      (blank ''img'')\<lparr>src_attr := Some [], id_attr := Some ''brand''\<rparr>]
     = Inr [''https://a.com'']
   \<and> link_matches ((blank ''link'')\<lparr>rel_attr := Some (Lst [''icon''])\<rparr>)"
proof -
  let ?img1 = "(blank ''img'')\<lparr>alt_attr := Some ''Site Logo''\<rparr>"
  let ?img2 = "(blank ''img'')\<lparr>src_attr := Some [], id_attr := Some ''brand''\<rparr>"
  let ?link1 = "(blank ''link'')\<lparr>rel_attr := Some (Lst [''icon''])\<rparr>"
  let ?link2 = "(blank ''link'')\<lparr>rel_attr := Some (Lst [''icon'']), href_attr := Some []\<rparr>"
  have a: "img_loop demo_env ''https://a.com'' (?img1 # []) [] = img_loop demo_env ''https://a.com'' [] ([] @ [''https://a.com''])
      \<and> scan_soup demo_env ''https://a.com'' ([] @ ?link1 # [?img1]) = scan_soup demo_env ''https://a.com'' ([] @ [?img1])"
    using missing_src_and_href [of ?img1 demo_env "''https://a.com''" "[]" "[]" "[]" "[]" ?link1 "[]" "[]" "[?img1]"]
    by (simp add: blank_def any_term_in_def get_str_def get_list_def lower_def lower_char_def
        del: img_loop.simps link_loop.simps)
  have b: "img_loop demo_env ''https://a.com'' (?img2 # []) [] = img_loop demo_env ''https://a.com'' [] ([] @ [''https://a.com''])
      \<and> scan_soup demo_env ''https://a.com'' ([] @ ?link2 # [?img2]) = scan_soup demo_env ''https://a.com'' ([] @ [?img2])"
    using missing_src_and_href [of ?img2 demo_env "''https://a.com''" "[]" "[]" "[]" "[]" ?link2 "[]" "[]" "[?img2]"]
    by (simp add: blank_def any_term_in_def get_str_def get_list_def lower_def lower_char_def
        del: img_loop.simps link_loop.simps)
  have s1: "scan_soup demo_env ''https://a.com'' [?img1] = Inr [''https://a.com'']"
    using a by (simp add: scan_soup_def find_all_def blank_def del: img_loop.simps(2))
  have s2: "scan_soup demo_env ''https://a.com'' [?img2] = Inr [''https://a.com'']"
    using b by (simp add: scan_soup_def find_all_def blank_def del: img_loop.simps(2))
  have c: "link_matches ?link1"
    by (simp add: blank_def link_matches_def link_rel_def lower_def lower_char_def)
  show ?thesis
    using a b s1 s2 c by simp
qed

section \<open>Fetcher: properties\<close>

text \<open>
  Claim C6. For a candidate that is not an inline SVG payload, a response whose status
  is not 200, or whose bytes the validator rejects, gives no result, and no file is
  written: the files are what they were and the trace has no new write.
\<close>

theorem failed_download_writes_nothing:
  assumes "\<not> prefix data_prefix url" and "http_get E url = Some r"
    and "status_code r \<noteq> 200 \<or> \<not> is_likely_logo E (content r) 16 500"
  shows "fst (download_logo E url domain out w) = None
         \<and> files (snd (download_logo E url domain out w)) = files w
         \<and> writes (trace (snd (download_logo E url domain out w))) = writes (trace w)"
proof -
  have w: "writes (tr @ [Get u]) = writes tr" for tr u
    by (induction tr rule: writes.induct) simp_all
  have "download_logo E url domain out w = (None, emit (Get url) w)"
    using assms by (auto simp add: download_logo_def requests_get_def)
  then show ?thesis by (simp add: emit_def w)
qed

theorem failed_download_writes_nothing_witness:
  "download_logo demo_env ''https://a.com/logo.png'' ''a.com'' ''logo'' empty_world
     = (None, \<lparr>files = Map.empty, trace = [Get ''https://a.com/logo.png'']\<rparr>)
   \<and> fst (download_logo demo_env ''https://a.com/banner.png'' ''a.com'' ''logo'' empty_world) = None
   \<and> files (snd (download_logo demo_env ''https://a.com/banner.png'' ''a.com'' ''logo'' empty_world)) = Map.empty"
proof -
  have p: "\<not> prefix data_prefix ''https://a.com/logo.png''" "\<not> prefix data_prefix ''https://a.com/banner.png''"
    by (simp_all add: data_prefix_def)
  have g1: "http_get demo_env ''https://a.com/logo.png''
      = Some \<lparr>status_code = 404, text_body = [], content = [], content_type = None\<rparr>"
    by (simp add: demo_env_def demo_http_def)
  have g2: "http_get demo_env ''https://a.com/banner.png'' = Some (ok_response ''image 600x600'' (Some ''image/png''))"
    by (simp add: demo_env_def demo_http_def)
  have s1: "status_code \<lparr>status_code = 404, text_body = [], content = [], content_type = None\<rparr> \<noteq> 200
      \<or> \<not> is_likely_logo demo_env (content \<lparr>status_code = 404, text_body = [], content = [], content_type = None\<rparr>) 16 500"
    by simp
  have s2: "status_code (ok_response ''image 600x600'' (Some ''image/png'')) \<noteq> 200
      \<or> \<not> is_likely_logo demo_env (content (ok_response ''image 600x600'' (Some ''image/png''))) 16 500"
    by (simp add: is_likely_logo_def demo_env_def demo_image_size_def ok_response_def)
  have t: "download_logo demo_env ''https://a.com/logo.png'' ''a.com'' ''logo'' empty_world
     = (None, \<lparr>files = Map.empty, trace = [Get ''https://a.com/logo.png'']\<rparr>)"
    using p(1) g1 by (simp add: download_logo_def requests_get_def emit_def empty_world_def)
  show ?thesis
    using failed_download_writes_nothing [OF p(2) g2 s2, of "''a.com''" "''logo''" empty_world] t
    by (simp add: empty_world_def)
qed

section \<open>Batch runner and entry point: properties\<close>

lemma set_unique: "set (unique xs) = set xs"
proof (induction xs rule: unique.induct)
  case 1
  show ?case by simp
next
  case (2 x xs)
  then show ?case by auto
qed

lemma distinct_unique: "distinct (unique xs)"
proof (induction xs rule: unique.induct)
  case 1
  show ?case by simp
next
  case (2 x xs)
  then show ?case by (simp add: set_unique)
qed

lemma set_dropna: "set (dropna col) = {v. Some v \<in> set col}"
  by (auto simp add: dropna_def)

text \<open>
  Claim C7. When the output folder exists or can be created, the table loads and has
  the designated column, the sites submitted are exactly the values of the column that
  are not missing, each once; for the column \<open>a.com\<close>, \<open>a.com\<close>, \<open>b.com\<close>, missing,
  they are \<open>a.com\<close> and \<open>b.com\<close>.
\<close>

theorem batch_sites:
  assumes "makedirs_ok E out" and "read_parquet E file = Some df" and "df column = Some col"
  shows "\<exists>sites. extract_logos_from_parquet E file out column = Inr sites
           \<and> set sites = {v. Some v \<in> set col}
           \<and> distinct sites
           \<and> (col = [Some ''a.com'', Some ''a.com'', Some ''b.com'', None] \<longrightarrow> sites = [''a.com'', ''b.com''])"
proof -
  have "extract_logos_from_parquet E file out column = Inr (unique (dropna col))"
    using assms by (simp add: extract_logos_from_parquet_def)
  moreover have "set (unique (dropna col)) = {v. Some v \<in> set col}"
    by (simp add: set_unique set_dropna)
  moreover have "col = [Some ''a.com'', Some ''a.com'', Some ''b.com'', None] \<longrightarrow>
      unique (dropna col) = [''a.com'', ''b.com'']"
    by (simp add: dropna_def)
  ultimately show ?thesis
    using distinct_unique [of "dropna col"] by simp
qed

theorem batch_sites_witness:
  "extract_logos_from_parquet demo_env ''sites.parquet'' ''logo'' ''domain'' = Inr [''a.com'', ''b.com'']"
proof -
  have "makedirs_ok demo_env ''logo''" by (simp add: demo_env_def)
  moreover have "read_parquet demo_env ''sites.parquet'' = Some demo_table" by (simp add: demo_env_def)
  moreover have "demo_table ''domain'' = Some [Some ''a.com'', Some ''a.com'', Some ''b.com'', None]"
    by (simp add: demo_table_def)
  ultimately show ?thesis
    using batch_sites [of demo_env "''logo''" "''sites.parquet''" demo_table "''domain''"
        "[Some ''a.com'', Some ''a.com'', Some ''b.com'', None]"]
    by auto
qed




section \<open>Site processor: properties\<close>

lemma attempts_append: "attempts (xs @ ys) = attempts xs @ attempts ys"
  by (induction xs rule: attempts.induct) simp_all


lemma path_join_nonempty: "b \<noteq> [] \<Longrightarrow> path_join a b \<noteq> []"
  by (simp add: path_join_def)

lemma download_logo_fst:
  "fst (download_logo E url domain out w) = fst (download_logo E url domain out w')"
  by (simp add: download_logo_def requests_get_def write_file_def Let_def
      split: list.splits option.splits sum.splits)

lemma download_logo_path_nonempty:
  "fst (download_logo E url domain out w) = Some file_path \<Longrightarrow> file_path \<noteq> []"
  by (auto simp add: download_logo_def requests_get_def write_file_def Let_def path_join_nonempty
      split: list.splits option.splits sum.splits if_splits)

lemma download_logo_attempts:
  "attempts (trace (snd (download_logo E url domain out w))) = attempts (trace w)"
  by (simp add: download_logo_def requests_get_def write_file_def emit_def attempts_append Let_def
      split: list.splits option.splits sum.splits)

text \<open>
  The loop over the candidates: when the candidate at position \<open>k\<close> is the first whose
  download gives a path, the downloads attempted are those of the candidates up to and
  including position \<open>k\<close>.
\<close>

lemma try_candidates_stops:
  assumes "k < length cs"
    and "\<forall>i<k. \<forall>w'. fst (download_logo E (cs ! i) domain out w') = None"
    and "\<forall>w'. fst (download_logo E (cs ! k) domain out w') \<noteq> None"
  shows "attempts (trace (snd (try_candidates E cs domain out w))) = attempts (trace w) @ take (Suc k) cs"
  using assms
proof (induction cs arbitrary: k w)
  case Nil
  then show ?case by simp
next
  case (Cons c cs)
  obtain r w1 where d: "download_logo E c domain out (emit (Attempt c) w) = (r, w1)"
    by (cases "download_logo E c domain out (emit (Attempt c) w)")
  have a1: "attempts (trace w1) = attempts (trace w) @ [c]"
    using download_logo_attempts [of E c domain out "emit (Attempt c) w"] d
    by (simp add: emit_def attempts_append)
  show ?case
  proof (cases k)
    case 0
    with Cons.prems(3) d obtain p where r: "r = Some p"
      by (metis fst_conv not_None_eq nth_Cons_0)
    with d have "p \<noteq> []"
      using download_logo_path_nonempty [of E c domain out "emit (Attempt c) w" p] by simp
    with d r a1 0 show ?thesis by simp
  next
    case (Suc j)
    with Cons.prems(2) d have r: "r = None"
      by (metis fst_conv nth_Cons_0 zero_less_Suc)
    have j: "j < length cs" using Cons.prems(1) Suc by simp
    have f: "\<forall>i<j. \<forall>w'. fst (download_logo E (cs ! i) domain out w') = None"
      using Cons.prems(2) Suc by (metis Suc_less_eq nth_Cons_Suc)
    have s: "\<forall>w'. fst (download_logo E (cs ! j) domain out w') \<noteq> None"
      using Cons.prems(3) Suc by simp
    from Cons.IH [OF j f s, of w1] d r a1 Suc show ?thesis by simp
  qed
qed

lemma find_logo_urls_attempts:
  "attempts (trace (snd (find_logo_urls E site w))) = attempts (trace w)"
  by (simp add: find_logo_urls_def requests_get_def emit_def attempts_append Let_def
      split: option.splits sum.splits)

lemma gets_append: "gets (xs @ ys) = gets xs @ gets ys"
  by (induction xs rule: gets.induct) simp_all

lemma download_logo_gets:
  "gets (trace (snd (download_logo E url domain out w)))
     = gets (trace w) @ (if prefix data_prefix url then [] else [url])"
  by (simp add: download_logo_def requests_get_def write_file_def emit_def gets_append Let_def
      split: list.splits option.splits sum.splits)

lemma try_candidates_requests:
  assumes "k < length cs"
    and "\<forall>i<k. \<forall>w'. fst (download_logo E (cs ! i) domain out w') = None"
    and "\<forall>w'. fst (download_logo E (cs ! k) domain out w') \<noteq> None"
  shows "gets (trace (snd (try_candidates E cs domain out w)))
           = gets (trace w) @ filter (\<lambda>u. \<not> prefix data_prefix u) (take (Suc k) cs)"
  using assms
proof (induction cs arbitrary: k w)
  case Nil
  then show ?case by simp
next
  case (Cons c cs)
  obtain r w1 where d: "download_logo E c domain out (emit (Attempt c) w) = (r, w1)"
    by (cases "download_logo E c domain out (emit (Attempt c) w)")
  have g1: "gets (trace w1) = gets (trace w) @ (if prefix data_prefix c then [] else [c])"
    using download_logo_gets [of E c domain out "emit (Attempt c) w"] d
    by (simp add: emit_def gets_append)
  show ?case
  proof (cases k)
    case 0
    with Cons.prems(3) d obtain p where r: "r = Some p"
      by (metis fst_conv not_None_eq nth_Cons_0)
    with d have "p \<noteq> []"
      using download_logo_path_nonempty [of E c domain out "emit (Attempt c) w" p] by simp
    with d r g1 0 show ?thesis by simp
  next
    case (Suc j)
    with Cons.prems(2) d have r: "r = None"
      by (metis fst_conv nth_Cons_0 zero_less_Suc)
    have j: "j < length cs" using Cons.prems(1) Suc by simp
    have f: "\<forall>i<j. \<forall>w'. fst (download_logo E (cs ! i) domain out w') = None"
      using Cons.prems(2) Suc by (metis Suc_less_eq nth_Cons_Suc)
    have s: "\<forall>w'. fst (download_logo E (cs ! j) domain out w') \<noteq> None"
      using Cons.prems(3) Suc by simp
    from Cons.IH [OF j f s, of w1] d r g1 Suc show ?thesis by simp
  qed
qed

lemma find_logo_urls_gets:
  "gets (trace (snd (find_logo_urls E site w))) = gets (trace w) @ [normalize_url site]"
  by (simp add: find_logo_urls_def requests_get_def emit_def gets_append Let_def
      split: option.splits sum.splits)

text \<open>
  Claim C2. The site processor goes through the scanner's candidates in order and stops
  at the first one whose download returns a path: when the download of the candidate at
  position \<open>k\<close> succeeds and all earlier ones fail, the downloads attempted are exactly
  those of the candidates up to position \<open>k\<close>, in order, and no later candidate is
  attempted. The requests sent are the one for the page and then one for each of these
  candidates that is a URL.
\<close>

theorem stops_at_first_success:
  assumes "get_domain site = Inr domain" and "fst (find_logo_urls E site w) = cs"
    and "k < length cs"
    and "\<forall>i<k. \<forall>w'. fst (download_logo E (cs ! i) domain out w') = None"
    and "\<forall>w'. fst (download_logo E (cs ! k) domain out w') \<noteq> None"
  shows "attempts (trace (snd (process_website E site out w))) = attempts (trace w) @ take (Suc k) cs
         \<and> gets (trace (snd (process_website E site out w)))
             = gets (trace w) @ normalize_url site # filter (\<lambda>u. \<not> prefix data_prefix u) (take (Suc k) cs)"
proof -
  obtain w1 where f: "find_logo_urls E site w = (cs, w1)"
    using assms(2) by (cases "find_logo_urls E site w") simp
  have ne: "cs \<noteq> []" using assms(3) by auto
  have p: "process_website E site out w = (None, snd (try_candidates E cs domain out w1))"
    using assms(1) f ne by (simp add: process_website_def)
  have a: "attempts (trace w1) = attempts (trace w)"
    using find_logo_urls_attempts [of E site w] f by simp
  have g: "gets (trace w1) = gets (trace w) @ [normalize_url site]"
    using find_logo_urls_gets [of E site w] f by simp
  show ?thesis
    using try_candidates_stops [OF assms(3) assms(4) assms(5), of w1]
      try_candidates_requests [OF assms(3) assms(4) assms(5), of w1] p a g
    by simp
qed

lemma candidates_a:
  "fst (find_logo_urls demo_env ''a.com'' empty_world)
     = [''https://a.com/logo.png'', ''https://a.com/favicon.ico'', data_prefix @ svg_a_markup]"
  by (simp add: find_logo_urls_def requests_get_def scan_soup_def scanner_defs scenario_defs
      urlparse_eval_defs emit_def Let_def)

lemma domain_a: "get_domain ''a.com'' = Inr ''a.com''"
  by (simp add: get_domain_def normalize_url_def has_scheme_prefix_def urlparse_eval_defs Let_def)

lemma logo_png_fails:
  "fst (download_logo demo_env ''https://a.com/logo.png'' domain out w) = None"
  by (simp add: download_logo_def requests_get_def data_prefix_def demo_env_def demo_http_def)

lemma favicon_succeeds:
  "fst (download_logo demo_env ''https://a.com/favicon.ico'' domain out w) \<noteq> None"
  by (simp add: download_logo_def requests_get_def data_prefix_def demo_env_def demo_http_def
      ok_response_def is_likely_logo_def demo_image_size_def file_ext_def get_str_def
      lower_def lower_char_def write_file_def Let_def)

theorem stops_at_first_success_witness:
  "attempts (trace (snd (process_website demo_env ''a.com'' ''logo'' empty_world)))
     = [''https://a.com/logo.png'', ''https://a.com/favicon.ico'']
   \<and> gets (trace (snd (process_website demo_env ''a.com'' ''logo'' empty_world)))
     = [''https://a.com'', ''https://a.com/logo.png'', ''https://a.com/favicon.ico'']
   \<and> length (fst (find_logo_urls demo_env ''a.com'' empty_world)) = 3"
proof -
  let ?cs = "[''https://a.com/logo.png'', ''https://a.com/favicon.ico'', data_prefix @ svg_a_markup]"
  have k: "1 < length ?cs" by simp
  have f: "\<forall>i<1. \<forall>w'. fst (download_logo demo_env (?cs ! i) ''a.com'' ''logo'' w') = None"
    using logo_png_fails by simp
  have s: "\<forall>w'. fst (download_logo demo_env (?cs ! 1) ''a.com'' ''logo'' w') \<noteq> None"
    using favicon_succeeds by simp
  have "attempts (trace (snd (process_website demo_env ''a.com'' ''logo'' empty_world)))
      = attempts (trace empty_world) @ take (Suc 1) ?cs
     \<and> gets (trace (snd (process_website demo_env ''a.com'' ''logo'' empty_world)))
      = gets (trace empty_world) @ normalize_url ''a.com'' # filter (\<lambda>u. \<not> prefix data_prefix u) (take (Suc 1) ?cs)"
    by (rule stops_at_first_success [OF domain_a candidates_a k f s])
  then show ?thesis using candidates_a
    by (simp add: empty_world_def norm_a data_prefix_def)
qed

section \<open>Inline SVG candidates\<close>










section \<open>Write targets\<close>
















end
